theory Spec2Isabelle
  imports Main "HOL-Library.Word"
begin

section \<open>Machine types of the sketch\<close>

text \<open>
  The sketch targets the AVR-based Arduino boards its comments name: \<open>unsigned long\<close> is a
  32-bit word, \<open>unsigned int\<close> a 16-bit word, \<open>byte\<close> an 8-bit word and \<open>int\<close> a
  16-bit signed integer.  Values of type \<open>int\<close> that the menu configures are kept as
  mathematical integers and converted where the source converts them.
\<close>

type_synonym u32 = "32 word"
type_synonym u16 = "16 word"
type_synonym u8 = "8 word"

section \<open>Code comparison (comparePassword)\<close>

text \<open>
  \<open>codeInput\<close> and \<open>password\<close> are \<open>char[8]\<close> arrays, modelled as strings of length 8.
  The loop runs \<open>i\<close> from 0 to 7 and returns false at the first mismatch.
\<close>

function comparePassword_from :: "nat \<Rightarrow> string \<Rightarrow> string \<Rightarrow> bool" where
  "comparePassword_from i codeInput password =
     (if i < 8 then
        (if codeInput ! i \<noteq> password ! i then False
         else comparePassword_from (i + 1) codeInput password)
      else True)"
  by pat_completeness auto
termination
  by (relation "measure (\<lambda>(i, c, p). 8 - i)") auto

declare comparePassword_from.simps [simp del]

definition comparePassword :: "string \<Rightarrow> string \<Rightarrow> bool" where
  "comparePassword codeInput password = comparePassword_from 0 codeInput password"

section \<open>Time formatting (printTime)\<close>

text \<open>\<open>lcd.print\<close> of an unsigned number writes its decimal digits.\<close>

definition digit_char :: "nat \<Rightarrow> char" where
  "digit_char d = ''0123456789'' ! d"

fun print_dec :: "nat \<Rightarrow> string" where
  "print_dec n = (if n < 10 then [digit_char n] else print_dec (n div 10) @ [digit_char (n mod 10)])"

declare print_dec.simps [simp del]

text \<open>
  The two quantities \<open>printTime\<close> derives from its arguments: \<open>remainingMinutes\<close> and
  \<open>remainingSecs\<close>, both \<open>unsigned long\<close>.
\<close>

definition printTime_remaining :: "u32 \<Rightarrow> u32 \<Rightarrow> u32 \<times> u32" where
  "printTime_remaining minutes aTime =
     (minutes - aTime div 60000, 59 - (aTime div 1000) mod 60)"

text \<open>The text sent to the display; \<open>now\<close> is the value \<open>millis()\<close> returns in the last line.\<close>

definition printTime :: "u32 \<Rightarrow> u32 \<Rightarrow> u32 \<Rightarrow> string" where
  "printTime minutes aTime now =
     (let remainingMinutes = fst (printTime_remaining minutes aTime);
          hours = remainingMinutes div 60;
          mins = remainingMinutes mod 60;
          remainingSecs = snd (printTime_remaining minutes aTime)
      in (if hours \<ge> 1
          then (if hours < 10 then ''0'' else '''') @ print_dec (unat hours) @ '':''
          else '''')
         @ (if mins < 10 then ''0'' else '''') @ print_dec (unat mins) @ '':''
         @ (if remainingSecs < 10 then ''0'' else '''') @ print_dec (unat remainingSecs) @ '':''
         @ print_dec (unat (999 - now mod 1000)))"

text \<open>Order of two (minutes, seconds) displays: the first shows less time than the second.\<close>

definition display_less :: "u32 \<times> u32 \<Rightarrow> u32 \<times> u32 \<Rightarrow> bool" where
  "display_less a b = (fst a < fst b \<or> (fst a = fst b \<and> snd a < snd b))"

text \<open>Every mode loop starts with \<open>int minutes = GAMEMINUTES - 1\<close> (or \<open>BOMBMINUTES - 1\<close>) and
  passes it where an \<open>unsigned long\<close> is expected.\<close>

definition minutes_of :: "int \<Rightarrow> u32" where
  "minutes_of configured = word_of_int (configured - 1)"

section \<open>Winner of a Domination session (gameOver)\<close>

datatype team = Green | Red

definition gameOver_winner :: "u32 \<Rightarrow> u32 \<Rightarrow> team" where
  "gameOver_winner greenTime redTime = (if greenTime > redTime then Green else Red)"

section \<open>The sketch as a state machine\<close>

text \<open>
  The mode functions are polling loops over global variables.  They are embedded as
  transitions on a record of the globals; \<open>pc\<close> is the loop the sketch is in, together with
  that loop's local variables.  One transition is one pass through the body of the
  innermost running loop.  Time is the value of \<open>millis()\<close>: it advances when the loop polls
  the keypad (by the \<open>dt\<close> of the sample it receives) and across \<open>delay(n)\<close> (by \<open>n\<close>), and
  wraps at \<open>2 ^ 32\<close>.  Output (display, indicator lights, tones, relay) is never read
  back and is left out, except for the winner that \<open>gameOver\<close> names; a run ends at an
  outcome screen or at the replay prompt.
\<close>

datatype caller = FromSearch u32 | FromDestroy u32 | FromSabotage | FromDestroySabotage u32

datatype phase =
    Search u32                      \<comment> \<open>main loop of \<open>search\<close>: gameStartTime\<close>
  | SearchArming u32 u32            \<comment> \<open>its hold loop: gameStartTime, startActionTime\<close>
  | Destroy u32                     \<comment> \<open>main loop of \<open>destroy\<close>: bombStartTime\<close>
  | DestroyDisarming u32 u32        \<comment> \<open>its hold loop: bombStartTime, startActionTime\<close>
  | Sabotage                        \<comment> \<open>main loop of \<open>sabotage\<close>\<close>
  | SabotageArming u32              \<comment> \<open>its hold loop: startActionTime\<close>
  | DestroySabotage u32             \<comment> \<open>main loop of \<open>destroySabotage\<close>: bombStartTime\<close>
  | DestroySabotageDisarming u32 u32 \<comment> \<open>its hold loop: bombStartTime, startActionTime\<close>
  | Domination u32                  \<comment> \<open>main loop of \<open>domination\<close>: initialTime\<close>
  | Neutralizing u32 u32            \<comment> \<open>hold loops of \<open>domination\<close>: initialTime, startActionTime\<close>
  | CapturingRed u32 u32
  | CapturingGreen u32 u32
  | SetCodeTime caller u32 nat      \<comment> \<open>\<open>getNumber\<close> inside \<open>setCodeTime\<close>: startTime, position\<close>
  | FailSplash
  | ExplodeSplash
  | DisarmedSplash
  | GameOver "team option"          \<comment> \<open>result loop of \<open>gameOver\<close>: the winner its screens have named so far\<close>
  | GameOverPrompt "team option"    \<comment> \<open>replay prompt of \<open>gameOver\<close>: the winner that was named, if any\<close>
  | MenuPrincipal                   \<comment> \<open>the mode function returned to the menu that called it\<close>
  | Undefined                       \<comment> \<open>division by zero, or overflow of an \<open>int\<close>\<close>

text \<open>
  History of the zone, newest event first.  It is written by the transitions that change
  the holder of the zone and read by none.
\<close>

datatype zone_event = Acquired team u32 | Released u32 | SessionEnded u32

record sketch =
  now :: u32
  GAMEMINUTES :: int
  BOMBMINUTES :: int
  ACTIVATESECONDS :: int
  passwordEnable :: bool
  endGame :: bool
  start :: bool
  defusing :: bool
  cancelando :: bool
  iTime :: u32
  redTime :: u32
  greenTime :: u32
  iZoneTime :: u32
  team :: u8
  codeInput :: string
  password :: string
  pc :: phase
  zone_log :: "zone_event list"

text \<open>
  What one call of \<open>keypad.getKey()\<close> observes: the time since the previous observation,
  the key it returns (\<open>None\<close> for \<open>NO_KEY\<close>), and the values \<open>keypadEvent\<close> leaves in
  \<open>defusing\<close> and \<open>cancelando\<close>.
\<close>

record tick =
  dt :: u32
  key :: "char option"
  held_d :: bool
  held_c :: bool

definition poll :: "tick \<Rightarrow> sketch \<Rightarrow> sketch" where
  "poll t s = s\<lparr>now := now s + dt t, defusing := held_d t, cancelando := held_c t\<rparr>"

definition delay :: "u32 \<Rightarrow> sketch \<Rightarrow> sketch" where
  "delay ms s = s\<lparr>now := now s + ms\<rparr>"

subsection \<open>Tests shared by the loops\<close>

text \<open>The expiry test of the main loops.\<close>

definition time_expired :: "u32 \<Rightarrow> u32 \<Rightarrow> bool" where
  "time_expired minutes elapsedTime \<longleftrightarrow>
     minutes - elapsedTime div 60000 = 0 \<and> 59 - (elapsedTime div 1000) mod 60 = 0"

text \<open>The expiry test of the hold loops, with the overflow safeguard.\<close>

definition time_expired_or_overflow :: "u32 \<Rightarrow> u32 \<Rightarrow> bool" where
  "time_expired_or_overflow minutes elapsedTime \<longleftrightarrow>
     time_expired minutes elapsedTime \<or> minutes - elapsedTime div 60000 > 4000000000"

text \<open>
  \<open>progressPercent = elapsedAction / (ACTIVATESECONDS * 10)\<close>, stored in an
  \<open>unsigned int\<close>; \<open>None\<close> when the divisor is zero.
\<close>

definition progressPercent :: "int \<Rightarrow> u32 \<Rightarrow> u16 option" where
  "progressPercent activateSeconds elapsedAction =
     (if (word_of_int (activateSeconds * 10) :: u32) = 0 then None
      else Some (ucast (elapsedAction div word_of_int (activateSeconds * 10))))"

subsection \<open>Outcome screens\<close>

definition failSplash :: "sketch \<Rightarrow> sketch" where
  "failSplash s = s\<lparr>endGame := False, pc := FailSplash\<rparr>"

definition explodeSplash :: "sketch \<Rightarrow> sketch" where
  "explodeSplash s = s\<lparr>endGame := False, pc := ExplodeSplash\<rparr>"

definition disarmedSplash :: "sketch \<Rightarrow> sketch" where
  "disarmedSplash s = s\<lparr>endGame := False, pc := DisarmedSplash\<rparr>"

text \<open>
  \<open>gameOver\<close> up to its result loop: the total of the team that holds the zone is brought
  up to date; the loop \<open>while (!defusing)\<close> is entered only when the defuse key is not held,
  otherwise the replay prompt follows at once and no winner is named.
\<close>

definition gameOver :: "sketch \<Rightarrow> sketch" where
  "gameOver s =
     (let s1 = (if team s = 1 then s\<lparr>greenTime := greenTime s + (now s - iZoneTime s)\<rparr> else s);
          s2 = (if team s1 = 2 then s1\<lparr>redTime := redTime s1 + (now s1 - iZoneTime s1)\<rparr> else s1);
          s3 = s2\<lparr>zone_log := SessionEnded (now s2) # zone_log s2\<rparr>
      in if defusing s3 then (delay 100 s3)\<lparr>pc := GameOverPrompt None\<rparr>
         else s3\<lparr>pc := GameOver None\<rparr>)"

text \<open>
  One pass of the result loop of \<open>gameOver\<close>: it polls the keypad and leaves for the prompt
  when the defuse key is held; otherwise it names the winner and shows the two totals, three
  seconds each.  (The tests of \<open>defusing\<close> after each screen read a flag that only a poll
  changes.)
\<close>

definition gameOver_screens :: "team option \<Rightarrow> tick \<Rightarrow> sketch \<Rightarrow> sketch" where
  "gameOver_screens named t s =
     (let s1 = poll t s
      in if defusing s1 then (delay 100 s1)\<lparr>pc := GameOverPrompt named\<rparr>
         else (delay 9000 s1)\<lparr>pc := GameOver (Some (gameOver_winner (greenTime s1) (redTime s1)))\<rparr>)"


subsection \<open>Entering a mode function\<close>

text \<open>
  Every main loop starts a pass with a test of \<open>endGame\<close>; the functions \<open>\<dots>_top\<close> are that
  test.  A state whose \<open>pc\<close> names a loop waits at the keypad poll of that loop.
\<close>

definition search_top :: "u32 \<Rightarrow> sketch \<Rightarrow> sketch" where
  "search_top gameStartTime s = (if endGame s then failSplash s else s\<lparr>pc := Search gameStartTime\<rparr>)"

definition search :: "sketch \<Rightarrow> sketch" where
  "search s = search_top (now s) s"

definition destroy_top :: "u32 \<Rightarrow> sketch \<Rightarrow> sketch" where
  "destroy_top bombStartTime s = (if endGame s then explodeSplash s else s\<lparr>pc := Destroy bombStartTime\<rparr>)"

definition destroy :: "sketch \<Rightarrow> sketch" where
  "destroy s = (let s1 = delay 1000 s in destroy_top (now s1) s1)"

definition sabotage_top :: "sketch \<Rightarrow> sketch" where
  "sabotage_top s = (if endGame s then failSplash s else s\<lparr>pc := Sabotage\<rparr>)"

definition sabotage :: "sketch \<Rightarrow> sketch" where
  "sabotage s =
     (let s1 = s\<lparr>endGame := False\<rparr>;
          s2 = (if start s1 then s1\<lparr>iTime := now s1, start := False\<rparr> else s1)
      in sabotage_top s2)"

definition destroySabotage_top :: "u32 \<Rightarrow> sketch \<Rightarrow> sketch" where
  "destroySabotage_top bombStartTime s =
     (if endGame s then explodeSplash s else s\<lparr>pc := DestroySabotage bombStartTime\<rparr>)"

definition destroySabotage :: "sketch \<Rightarrow> sketch" where
  "destroySabotage s =
     (let s1 = delay 1000 (s\<lparr>endGame := False\<rparr>) in destroySabotage_top (now s1) s1)"

definition domination_top :: "u32 \<Rightarrow> sketch \<Rightarrow> sketch" where
  "domination_top initialTime s = (if endGame s then gameOver s else s\<lparr>pc := Domination initialTime\<rparr>)"

definition domination :: "sketch \<Rightarrow> sketch" where
  "domination s =
     domination_top (now s)
       (s\<lparr>team := 0, iZoneTime := 0, redTime := 0, greenTime := 0, zone_log := []\<rparr>)"

subsection \<open>Timed code entry (setCodeTime, getNumber)\<close>

text \<open>
  \<open>ACTIVATESECONDS * 1000 + startTime - millis()\<close>: the product is computed in \<open>int\<close>
  (\<open>None\<close> when it leaves the 16-bit range), the rest in \<open>unsigned long\<close>.
\<close>

definition code_time_left :: "int \<Rightarrow> u32 \<Rightarrow> u32 \<Rightarrow> u32 option" where
  "code_time_left activateSeconds startTime t =
     (if activateSeconds * 1000 > 32767 \<or> activateSeconds * 1000 < - 32768 then None
      else Some (word_of_int (activateSeconds * 1000) + startTime - t))"

definition is_digit :: "char \<Rightarrow> bool" where
  "is_digit c \<longleftrightarrow> 48 \<le> (of_char c :: nat) \<and> (of_char c :: nat) \<le> 57"

text \<open>What each caller does when \<open>setCodeTime\<close> has returned.\<close>

fun code_entered :: "caller \<Rightarrow> sketch \<Rightarrow> sketch" where
  "code_entered (FromSearch gameStartTime) s =
     (if comparePassword (codeInput s) (password s) then destroy s
      else search_top gameStartTime (delay 500 s))"
| "code_entered (FromDestroy bombStartTime) s =
     (if comparePassword (codeInput s) (password s) then disarmedSplash s
      else destroy_top bombStartTime (delay 500 s))"
| "code_entered FromSabotage s =
     (if comparePassword (codeInput s) (password s) then destroySabotage s
      else sabotage_top (delay 500 s))"
| "code_entered (FromDestroySabotage bombStartTime) s =
     (if comparePassword (codeInput s) (password s) then sabotage s
      else destroySabotage_top bombStartTime (delay 500 s))"

text \<open>
  \<open>setCodeTime\<close> from position \<open>i\<close> on, up to the next call of \<open>getNumber\<close>: a position
  whose time is up takes the sentinel \<open>x\<close> without waiting for a key.
\<close>

function setCodeTime_from :: "caller \<Rightarrow> u32 \<Rightarrow> nat \<Rightarrow> sketch \<Rightarrow> sketch" where
  "setCodeTime_from c startTime i s =
     (if i < 8 then
        (case code_time_left (ACTIVATESECONDS s) startTime (now s) of
           None \<Rightarrow> s\<lparr>pc := Undefined\<rparr>
         | Some left \<Rightarrow>
             if left \<le> 100
             then setCodeTime_from c startTime (i + 1) (s\<lparr>codeInput := (codeInput s)[i := CHR ''x'']\<rparr>)
             else s\<lparr>pc := SetCodeTime c startTime i\<rparr>)
      else code_entered c s)"
  by pat_completeness auto
termination
  by (relation "measure (\<lambda>(c, startTime, i, s). 8 - i)") auto

declare setCodeTime_from.simps [simp del]

definition setCodeTime :: "caller \<Rightarrow> sketch \<Rightarrow> sketch" where
  "setCodeTime c s = setCodeTime_from c (now s) 0 s"

text \<open>One poll of \<open>getNumber\<close> while position \<open>i\<close> is being read.\<close>

definition getNumber_poll :: "caller \<Rightarrow> u32 \<Rightarrow> nat \<Rightarrow> tick \<Rightarrow> sketch \<Rightarrow> sketch" where
  "getNumber_poll c startTime i t s =
     (let s1 = poll t s in
      case key t of
        None \<Rightarrow> s1
      | Some k \<Rightarrow>
          if is_digit k
          then setCodeTime_from c startTime (i + 1) (s1\<lparr>codeInput := (codeInput s1)[i := k]\<rparr>)
          else setCodeTime_from c startTime i s1)"

subsection \<open>Search and Destroy\<close>

text \<open>One pass of the main loop of \<open>search\<close>; its two keypad polls are one observation.\<close>

definition search_loop :: "u32 \<Rightarrow> tick \<Rightarrow> sketch \<Rightarrow> sketch" where
  "search_loop gameStartTime t s =
     (let s1 = poll t s;
          minutes = minutes_of (GAMEMINUTES s1);
          elapsedTime = now s1 - gameStartTime
      in if time_expired minutes elapsedTime then failSplash s1
         else if key t = Some CHR ''d'' \<and> passwordEnable s1
           then setCodeTime (FromSearch gameStartTime) (delay 1000 s1)
         else if defusing s1 \<and> \<not> passwordEnable s1
           then s1\<lparr>pc := SearchArming gameStartTime (now s1)\<rparr>
         else search_top gameStartTime s1)"

text \<open>One pass of the hold loop of \<open>search\<close>.\<close>

definition search_arming :: "u32 \<Rightarrow> u32 \<Rightarrow> tick \<Rightarrow> sketch \<Rightarrow> sketch" where
  "search_arming gameStartTime startActionTime t s =
     (let s1 = poll t s;
          minutes = minutes_of (GAMEMINUTES s1);
          elapsedTime = now s1 - gameStartTime
      in if time_expired_or_overflow minutes elapsedTime
           then search_top gameStartTime (s1\<lparr>endGame := True\<rparr>)
         else case progressPercent (ACTIVATESECONDS s1) (now s1 - startActionTime) of
           None \<Rightarrow> s1\<lparr>pc := Undefined\<rparr>
         | Some percent \<Rightarrow>
             if percent \<ge> 100 then destroy s1
             else if defusing s1 then s1
             else search_top gameStartTime s1)"

definition destroy_loop :: "u32 \<Rightarrow> tick \<Rightarrow> sketch \<Rightarrow> sketch" where
  "destroy_loop bombStartTime t s =
     (let s1 = poll t s;
          minutes = minutes_of (BOMBMINUTES s1);
          elapsedTime = now s1 - bombStartTime
      in if time_expired minutes elapsedTime then explodeSplash s1
         else if key t = Some CHR ''d'' \<and> passwordEnable s1
           then setCodeTime (FromDestroy bombStartTime) (delay 1000 s1)
         else if defusing s1 \<and> \<not> passwordEnable s1
           then s1\<lparr>pc := DestroyDisarming bombStartTime (now s1)\<rparr>
         else destroy_top bombStartTime s1)"

definition destroy_disarming :: "u32 \<Rightarrow> u32 \<Rightarrow> tick \<Rightarrow> sketch \<Rightarrow> sketch" where
  "destroy_disarming bombStartTime startActionTime t s =
     (let s1 = poll t s;
          minutes = minutes_of (BOMBMINUTES s1);
          elapsedTime = now s1 - bombStartTime
      in if time_expired_or_overflow minutes elapsedTime
           then destroy_top bombStartTime (s1\<lparr>endGame := True\<rparr>)
         else case progressPercent (ACTIVATESECONDS s1) (now s1 - startActionTime) of
           None \<Rightarrow> s1\<lparr>pc := Undefined\<rparr>
         | Some percent \<Rightarrow>
             if percent \<ge> 100 then disarmedSplash s1
             else if defusing s1 then s1
             else destroy_top bombStartTime s1)"

subsection \<open>Sabotage\<close>

definition sabotage_loop :: "tick \<Rightarrow> sketch \<Rightarrow> sketch" where
  "sabotage_loop t s =
     (let s1 = poll t s;
          minutes = minutes_of (GAMEMINUTES s1);
          elapsedTime = now s1 - iTime s1
      in if time_expired minutes elapsedTime then failSplash s1
         else if key t = Some CHR ''d'' \<and> passwordEnable s1
           then setCodeTime FromSabotage (delay 1000 s1)
         else if defusing s1 \<and> \<not> passwordEnable s1
           then s1\<lparr>pc := SabotageArming (now s1)\<rparr>
         else sabotage_top s1)"

definition sabotage_arming :: "u32 \<Rightarrow> tick \<Rightarrow> sketch \<Rightarrow> sketch" where
  "sabotage_arming startActionTime t s =
     (let s1 = poll t s;
          minutes = minutes_of (GAMEMINUTES s1);
          elapsedTime = now s1 - iTime s1
      in if time_expired_or_overflow minutes elapsedTime
           then sabotage_top (s1\<lparr>endGame := True\<rparr>)
         else case progressPercent (ACTIVATESECONDS s1) (now s1 - startActionTime) of
           None \<Rightarrow> s1\<lparr>pc := Undefined\<rparr>
         | Some percent \<Rightarrow>
             if percent \<ge> 100 then destroySabotage s1
             else if defusing s1 then s1
             else sabotage_top s1)"

definition destroySabotage_loop :: "u32 \<Rightarrow> tick \<Rightarrow> sketch \<Rightarrow> sketch" where
  "destroySabotage_loop bombStartTime t s =
     (let s1 = poll t s;
          minutes = minutes_of (BOMBMINUTES s1);
          elapsedTime = now s1 - bombStartTime
      in if time_expired minutes elapsedTime then failSplash s1
         else if key t = Some CHR ''d'' \<and> passwordEnable s1
           then setCodeTime (FromDestroySabotage bombStartTime) (delay 1000 s1)
         else if defusing s1 \<and> \<not> passwordEnable s1
           then s1\<lparr>pc := DestroySabotageDisarming bombStartTime (now s1)\<rparr>
         else destroySabotage_top bombStartTime s1)"

definition destroySabotage_disarming :: "u32 \<Rightarrow> u32 \<Rightarrow> tick \<Rightarrow> sketch \<Rightarrow> sketch" where
  "destroySabotage_disarming bombStartTime startActionTime t s =
     (let s1 = poll t s;
          minutes = minutes_of (BOMBMINUTES s1);
          elapsedTime = now s1 - bombStartTime
      in if time_expired_or_overflow minutes elapsedTime
           then destroySabotage_top bombStartTime (s1\<lparr>endGame := True\<rparr>)
         else case progressPercent (ACTIVATESECONDS s1) (now s1 - startActionTime) of
           None \<Rightarrow> s1\<lparr>pc := Undefined\<rparr>
         | Some percent \<Rightarrow>
             if percent \<ge> 100 then sabotage (delay 1000 s1)
             else if defusing s1 then s1
             else destroySabotage_top bombStartTime s1)"

subsection \<open>Domination\<close>

text \<open>The conditions of the three hold loops of \<open>domination\<close>, in the order of the source.\<close>

definition domination_capture_green :: "u32 \<Rightarrow> sketch \<Rightarrow> sketch" where
  "domination_capture_green initialTime s =
     (if cancelando s \<and> team s = 0 then s\<lparr>pc := CapturingGreen initialTime (now s)\<rparr>
      else domination_top initialTime s)"

definition domination_capture_red :: "u32 \<Rightarrow> sketch \<Rightarrow> sketch" where
  "domination_capture_red initialTime s =
     (if defusing s \<and> team s = 0 then s\<lparr>pc := CapturingRed initialTime (now s)\<rparr>
      else domination_capture_green initialTime s)"

definition domination_neutralize :: "u32 \<Rightarrow> sketch \<Rightarrow> sketch" where
  "domination_neutralize initialTime s =
     (if (defusing s \<or> cancelando s) \<and> team s > 0 then s\<lparr>pc := Neutralizing initialTime (now s)\<rparr>
      else domination_capture_red initialTime s)"

definition domination_loop :: "u32 \<Rightarrow> tick \<Rightarrow> sketch \<Rightarrow> sketch" where
  "domination_loop initialTime t s =
     (let s1 = poll t s;
          minutes = minutes_of (GAMEMINUTES s1);
          elapsedGameTime = now s1 - initialTime
      in if time_expired minutes elapsedGameTime then gameOver s1
         else domination_neutralize initialTime s1)"

definition neutralizing :: "u32 \<Rightarrow> u32 \<Rightarrow> tick \<Rightarrow> sketch \<Rightarrow> sketch" where
  "neutralizing initialTime startActionTime t s =
     (let s1 = poll t s;
          minutes = minutes_of (GAMEMINUTES s1);
          elapsedGameTime = now s1 - initialTime
      in if time_expired_or_overflow minutes elapsedGameTime
           then s1\<lparr>endGame := True, pc := MenuPrincipal\<rparr>
         else case progressPercent (ACTIVATESECONDS s1) (now s1 - startActionTime) of
           None \<Rightarrow> s1\<lparr>pc := Undefined\<rparr>
         | Some percent \<Rightarrow>
             if percent \<ge> 100 then
               (let s2 = delay 1000 s1;
                    s3 = (if team s2 = 1 then s2\<lparr>greenTime := greenTime s2 + (now s2 - iZoneTime s2)\<rparr> else s2);
                    s4 = (if team s3 = 2 then s3\<lparr>redTime := redTime s3 + (now s3 - iZoneTime s3)\<rparr> else s3)
                in domination_neutralize initialTime
                     (s4\<lparr>iZoneTime := 0, team := 0, zone_log := Released (now s4) # zone_log s4\<rparr>))
             else if defusing s1 \<or> cancelando s1 then s1
             else domination_neutralize initialTime s1)"

definition capturing_red :: "u32 \<Rightarrow> u32 \<Rightarrow> tick \<Rightarrow> sketch \<Rightarrow> sketch" where
  "capturing_red initialTime startActionTime t s =
     (let s1 = poll t s;
          minutes = minutes_of (GAMEMINUTES s1);
          elapsedGameTime = now s1 - initialTime
      in if time_expired_or_overflow minutes elapsedGameTime
           then s1\<lparr>endGame := True, pc := MenuPrincipal\<rparr>
         else case progressPercent (ACTIVATESECONDS s1) (now s1 - startActionTime) of
           None \<Rightarrow> s1\<lparr>pc := Undefined\<rparr>
         | Some percent \<Rightarrow>
             if percent \<ge> 100 then
               domination_capture_red initialTime
                 (delay 1000 (s1\<lparr>team := 2, iZoneTime := now s1,
                                  zone_log := Acquired Red (now s1) # zone_log s1\<rparr>))
             else if defusing s1 then s1
             else domination_capture_red initialTime s1)"

definition capturing_green :: "u32 \<Rightarrow> u32 \<Rightarrow> tick \<Rightarrow> sketch \<Rightarrow> sketch" where
  "capturing_green initialTime startActionTime t s =
     (let s1 = poll t s;
          minutes = minutes_of (GAMEMINUTES s1);
          elapsedGameTime = now s1 - initialTime
      in if time_expired_or_overflow minutes elapsedGameTime
           then s1\<lparr>endGame := True, pc := MenuPrincipal\<rparr>
         else case progressPercent (ACTIVATESECONDS s1) (now s1 - startActionTime) of
           None \<Rightarrow> s1\<lparr>pc := Undefined\<rparr>
         | Some percent \<Rightarrow>
             if percent \<ge> 100 then
               domination_capture_green initialTime
                 (delay 1000 (s1\<lparr>team := 1, iZoneTime := now s1,
                                  zone_log := Acquired Green (now s1) # zone_log s1\<rparr>))
             else if cancelando s1 then s1
             else domination_capture_green initialTime s1)"

subsection \<open>Running the sketch\<close>

fun step_at :: "phase \<Rightarrow> tick \<Rightarrow> sketch \<Rightarrow> sketch" where
  "step_at (Search g) t s = search_loop g t s"
| "step_at (SearchArming g a) t s = search_arming g a t s"
| "step_at (Destroy b) t s = destroy_loop b t s"
| "step_at (DestroyDisarming b a) t s = destroy_disarming b a t s"
| "step_at Sabotage t s = sabotage_loop t s"
| "step_at (SabotageArming a) t s = sabotage_arming a t s"
| "step_at (DestroySabotage b) t s = destroySabotage_loop b t s"
| "step_at (DestroySabotageDisarming b a) t s = destroySabotage_disarming b a t s"
| "step_at (Domination i) t s = domination_loop i t s"
| "step_at (Neutralizing i a) t s = neutralizing i a t s"
| "step_at (CapturingRed i a) t s = capturing_red i a t s"
| "step_at (CapturingGreen i a) t s = capturing_green i a t s"
| "step_at (SetCodeTime c st i) t s = getNumber_poll c st i t s"
| "step_at FailSplash t s = s"
| "step_at ExplodeSplash t s = s"
| "step_at DisarmedSplash t s = s"
| "step_at (GameOver w) t s = gameOver_screens w t s"
| "step_at (GameOverPrompt w) t s = s"
| "step_at MenuPrincipal t s = s"
| "step_at Undefined t s = s"

definition step :: "tick \<Rightarrow> sketch \<Rightarrow> sketch" where
  "step t s = step_at (pc s) t s"

fun run :: "sketch \<Rightarrow> tick list \<Rightarrow> sketch" where
  "run s [] = s"
| "run s (t # ts) = run (step t s) ts"

subsection \<open>Control time read off the history of the zone\<close>

text \<open>The interval that an end of control at instant \<open>r\<close> closes: it counts for team \<open>T\<close> when
  the event before it is an acquisition by \<open>T\<close>.\<close>

fun closed_interval :: "team \<Rightarrow> u32 \<Rightarrow> zone_event list \<Rightarrow> u32" where
  "closed_interval T r (Acquired T' a # es) = (if T' = T then r - a else 0)"
| "closed_interval T r es = 0"

text \<open>Sum of (release instant - acquire instant) over the intervals in which \<open>T\<close> held the zone.\<close>

fun control_total :: "team \<Rightarrow> zone_event list \<Rightarrow> u32" where
  "control_total T [] = 0"
| "control_total T (Acquired T' a # es) = control_total T es"
| "control_total T (Released r # es) = closed_interval T r es + control_total T es"
| "control_total T (SessionEnded r # es) = closed_interval T r es + control_total T es"


subsection \<open>The globals after start-up\<close>

text \<open>The initial values of the globals, as \<open>StartUp.ino\<close> declares them; the sketch is in the menu.\<close>

definition boot :: sketch where
  "boot = \<lparr>now = 0, GAMEMINUTES = 45, BOMBMINUTES = 4, ACTIVATESECONDS = 5,
           passwordEnable = False, endGame = False, start = True, defusing = False,
           cancelando = False, iTime = 0, redTime = 0, greenTime = 0, iZoneTime = 0, team = 0,
           codeInput = replicate 8 (CHR 0x00), password = replicate 8 (CHR 0x00),
           pc = MenuPrincipal, zone_log = []\<rparr>"

text \<open>Abbreviations for keypad observations: nothing pressed, and the hold keys \<open>d\<close>, \<open>c\<close> down.\<close>

definition idle :: "u32 \<Rightarrow> tick" where
  "idle d = \<lparr>dt = d, key = None, held_d = False, held_c = False\<rparr>"

definition hold_d :: "u32 \<Rightarrow> tick" where
  "hold_d d = \<lparr>dt = d, key = None, held_d = True, held_c = False\<rparr>"

definition hold_c :: "u32 \<Rightarrow> tick" where
  "hold_c d = \<lparr>dt = d, key = None, held_d = False, held_c = True\<rparr>"

definition press :: "u32 \<Rightarrow> char \<Rightarrow> tick" where
  "press d k = \<lparr>dt = d, key = Some k, held_d = False, held_c = False\<rparr>"


subsection \<open>Vocabulary for the statements about the loops\<close>

text \<open>The outcome screens that the expiry of a clock leads to.\<close>

fun clock_outcome :: "phase \<Rightarrow> bool" where
  "clock_outcome FailSplash = True"
| "clock_outcome ExplodeSplash = True"
| "clock_outcome (GameOver w) = True"
| "clock_outcome (GameOverPrompt w) = True"
| "clock_outcome p = False"

text \<open>Where control is once \<open>setCodeTime\<close> has returned to its caller and the caller has
  compared the code: in the caller's own main loop, or where a matching code takes it.\<close>

fun returns_to :: "caller \<Rightarrow> phase \<Rightarrow> bool" where
  "returns_to (FromSearch g) (Search g') = (g' = g)"
| "returns_to (FromSearch g) (Destroy b) = True"
| "returns_to (FromDestroy b) (Destroy b') = (b' = b)"
| "returns_to (FromDestroy b) DisarmedSplash = True"
| "returns_to FromSabotage Sabotage = True"
| "returns_to FromSabotage (DestroySabotage b) = True"
| "returns_to (FromDestroySabotage b) (DestroySabotage b') = (b' = b)"
| "returns_to (FromDestroySabotage b) Sabotage = True"
| "returns_to c p = False"

text \<open>The hold loops: their \<open>startActionTime\<close>, the main loop they belong to, the input that
  keeps them running, and the clock they test (its minutes and its start instant).\<close>

fun hold_start :: "phase \<Rightarrow> u32 option" where
  "hold_start (SearchArming g a) = Some a"
| "hold_start (DestroyDisarming b a) = Some a"
| "hold_start (SabotageArming a) = Some a"
| "hold_start (DestroySabotageDisarming b a) = Some a"
| "hold_start (Neutralizing i a) = Some a"
| "hold_start (CapturingRed i a) = Some a"
| "hold_start (CapturingGreen i a) = Some a"
| "hold_start p = None"


fun hold_input :: "phase \<Rightarrow> tick \<Rightarrow> bool" where
  "hold_input (SearchArming g a) t = held_d t"
| "hold_input (DestroyDisarming b a) t = held_d t"
| "hold_input (SabotageArming a) t = held_d t"
| "hold_input (DestroySabotageDisarming b a) t = held_d t"
| "hold_input (Neutralizing i a) t = (held_d t \<or> held_c t)"
| "hold_input (CapturingRed i a) t = held_d t"
| "hold_input (CapturingGreen i a) t = held_c t"
| "hold_input p t = False"

fun hold_clock :: "phase \<Rightarrow> sketch \<Rightarrow> u32 \<times> u32" where
  "hold_clock (SearchArming g a) s = (minutes_of (GAMEMINUTES s), g)"
| "hold_clock (DestroyDisarming b a) s = (minutes_of (BOMBMINUTES s), b)"
| "hold_clock (SabotageArming a) s = (minutes_of (GAMEMINUTES s), iTime s)"
| "hold_clock (DestroySabotageDisarming b a) s = (minutes_of (BOMBMINUTES s), b)"
| "hold_clock (Neutralizing i a) s = (minutes_of (GAMEMINUTES s), i)"
| "hold_clock (CapturingRed i a) s = (minutes_of (GAMEMINUTES s), i)"
| "hold_clock (CapturingGreen i a) s = (minutes_of (GAMEMINUTES s), i)"
| "hold_clock p s = (0, 0)"

text \<open>What the hold loop of state \<open>s\<close> finds at the poll \<open>t\<close>: whether its clock has expired,
  and the progress it computes.\<close>

definition hold_expired :: "sketch \<Rightarrow> tick \<Rightarrow> bool" where
  "hold_expired s t =
     time_expired_or_overflow (fst (hold_clock (pc s) s)) (now s + dt t - snd (hold_clock (pc s) s))"

definition hold_progress :: "sketch \<Rightarrow> tick \<Rightarrow> u16 option" where
  "hold_progress s t =
     (case hold_start (pc s) of
        Some a \<Rightarrow> progressPercent (ACTIVATESECONDS s) (now s + dt t - a)
      | None \<Rightarrow> None)"


text \<open>A run of polls of the hold loop of \<open>s\<close>, each of which finds the input still held, the
  clock not expired and the progress below 100.\<close>

fun hold_continues :: "sketch \<Rightarrow> tick list \<Rightarrow> bool" where
  "hold_continues s [] = True"
| "hold_continues s (t # ts) =
     (hold_input (pc s) t \<and> \<not> hold_expired s t
      \<and> (case hold_progress s t of Some p \<Rightarrow> p < 100 | None \<Rightarrow> False)
      \<and> hold_continues (step t s) ts)"

text \<open>The state \<open>s\<close> with the clock and the two key flags of \<open>s'\<close>.\<close>

definition inputs_of :: "sketch \<Rightarrow> sketch \<Rightarrow> sketch" where
  "inputs_of s' s = s\<lparr>now := now s', defusing := defusing s', cancelando := cancelando s'\<rparr>"

text \<open>What the completion of each hold does, between the state \<open>s\<close> before the completing
  poll and the state \<open>s'\<close> after it: the armed-objective loops hand over to the next phase,
  the zone loops change the holder and write one event to the history.\<close>

fun signalled :: "phase \<Rightarrow> sketch \<Rightarrow> sketch \<Rightarrow> bool" where
  "signalled (SearchArming g a) s s' = (pc s' = Destroy (now s'))"
| "signalled (DestroyDisarming b a) s s' = (pc s' = DisarmedSplash)"
| "signalled (SabotageArming a) s s' = (pc s' = DestroySabotage (now s'))"
| "signalled (DestroySabotageDisarming b a) s s' = (pc s' = Sabotage)"
| "signalled (CapturingRed i a) s s' =
     (team s' = 2 \<and> zone_log s' = Acquired Red (iZoneTime s') # zone_log s)"
| "signalled (CapturingGreen i a) s s' =
     (team s' = 1 \<and> zone_log s' = Acquired Green (iZoneTime s') # zone_log s)"
| "signalled (Neutralizing i a) s s' =
     (team s' = 0 \<and> zone_log s' = Released (now s') # zone_log s)"
| "signalled p s s' = False"

text \<open>The interval that is open in a history, and the one the globals \<open>team\<close> and
  \<open>iZoneTime\<close> describe (\<open>team\<close> is 0 for neutral, 1 for green, 2 for red).\<close>

fun open_interval :: "zone_event list \<Rightarrow> (team \<times> u32) option" where
  "open_interval (Acquired T a # es) = Some (T, a)"
| "open_interval es = None"

definition holder :: "sketch \<Rightarrow> (team \<times> u32) option" where
  "holder s =
     (if team s = 1 then Some (Green, iZoneTime s)
      else if team s = 2 then Some (Red, iZoneTime s)
      else None)"

text \<open>In a well-formed history acquisitions and releases alternate: the zone is acquired
  only when no interval is open, and released only when one is.\<close>

fun alternating :: "zone_event list \<Rightarrow> bool" where
  "alternating [] = True"
| "alternating (Acquired T a # es) = (open_interval es = None \<and> alternating es)"
| "alternating (Released r # es) = (open_interval es \<noteq> None \<and> alternating es)"
| "alternating (SessionEnded r # es) = alternating es"

text \<open>The totals agree with the history, and so does the holder.\<close>

definition zone_inv :: "sketch \<Rightarrow> bool" where
  "zone_inv s \<longleftrightarrow>
     greenTime s = control_total Green (zone_log s) \<and> redTime s = control_total Red (zone_log s)
     \<and> alternating (zone_log s)
     \<and> (team s = 0 \<or> team s = 1 \<or> team s = 2) \<and> open_interval (zone_log s) = holder s"

text \<open>The capture loops run while the zone is neutral, the neutralise loop while it is held;
  the other program points of a Domination session put no condition on \<open>team\<close>.\<close>

fun in_domination :: "phase \<Rightarrow> u8 \<Rightarrow> bool" where
  "in_domination (Domination i) tm = True"
| "in_domination (Neutralizing i a) tm = (0 < tm)"
| "in_domination (CapturingRed i a) tm = (tm = 0)"
| "in_domination (CapturingGreen i a) tm = (tm = 0)"
| "in_domination MenuPrincipal tm = True"
| "in_domination Undefined tm = True"
| "in_domination p tm = False"

fun is_GameOver :: "phase \<Rightarrow> bool" where
  "is_GameOver (GameOver w) = True"
| "is_GameOver (GameOverPrompt w) = True"
| "is_GameOver p = False"

definition domination_inv :: "sketch \<Rightarrow> bool" where
  "domination_inv s \<longleftrightarrow>
     (in_domination (pc s) (team s) \<and> zone_inv s)
     \<or> (is_GameOver (pc s) \<and> greenTime s = control_total Green (zone_log s)
          \<and> redTime s = control_total Red (zone_log s) \<and> alternating (zone_log s))"


section \<open>Properties of the code comparison\<close>

lemma comparePassword_from_iff:
  "comparePassword_from i c p \<longleftrightarrow> (\<forall>j. i \<le> j \<and> j < 8 \<longrightarrow> c ! j = p ! j)"
proof (induction i c p rule: comparePassword_from.induct)
  case (1 i c p)
  show ?case
  proof (cases "i < 8")
    case False
    then show ?thesis by (subst comparePassword_from.simps) auto
  next
    case True
    show ?thesis
    proof (cases "c ! i = p ! i")
      case False
      with True show ?thesis by (subst comparePassword_from.simps) auto
    next
      case eq: True
      have "(\<forall>j. i \<le> j \<and> j < 8 \<longrightarrow> c ! j = p ! j) \<longleftrightarrow> (\<forall>j. i + 1 \<le> j \<and> j < 8 \<longrightarrow> c ! j = p ! j)"
      proof (intro iffI allI impI)
        fix j assume "\<forall>j. i \<le> j \<and> j < 8 \<longrightarrow> c ! j = p ! j" "i + 1 \<le> j \<and> j < 8"
        then show "c ! j = p ! j" by simp
      next
        fix j assume a: "\<forall>j. i + 1 \<le> j \<and> j < 8 \<longrightarrow> c ! j = p ! j" "i \<le> j \<and> j < 8"
        show "c ! j = p ! j"
        proof (cases "j = i")
          case True
          with eq show ?thesis by simp
        next
          case False
          with a(2) have "i + 1 \<le> j \<and> j < 8" by simp
          with a(1) show ?thesis by blast
        qed
      qed
      with "1.IH" True eq show ?thesis by (subst comparePassword_from.simps) simp
    qed
  qed
qed

lemma comparePassword_iff:
  "comparePassword c p \<longleftrightarrow> (\<forall>j<8. c ! j = p ! j)"
  by (simp add: comparePassword_def comparePassword_from_iff)

text \<open>
  C9.  Comparing an 8-symbol code with itself succeeds, and replacing the symbol at any
  single one of the 8 positions by a different one (a digit or the sentinel \<open>x\<close>), on
  either side, makes the comparison fail.
\<close>

theorem comparePassword_exact:
  assumes "length code = 8"
  shows "comparePassword code code
         \<and> (\<forall>i<8. \<forall>v. v \<noteq> code ! i \<longrightarrow>
               \<not> comparePassword (code[i := v]) code \<and> \<not> comparePassword code (code[i := v]))"
proof -
  have "comparePassword code code" by (simp add: comparePassword_iff)
  moreover have "\<not> comparePassword (code[i := v]) code" "\<not> comparePassword code (code[i := v])"
    if "i < 8" "v \<noteq> code ! i" for i v
    using that assms by (auto simp: comparePassword_iff)
  ultimately show ?thesis by blast
qed

theorem comparePassword_exact_witness:
  "length ''12345678'' = 8 \<and> comparePassword ''12345678'' ''12345678''
   \<and> \<not> comparePassword ''12x45678'' ''12345678'' \<and> \<not> comparePassword ''12345678'' ''12x45678''"
proof -
  have len: "length ''12345678'' = 8" by simp
  have upd: "''12345678''[2 := CHR ''x''] = ''12x45678''" by (simp add: numeral_2_eq_2)
  have neq: "CHR ''x'' \<noteq> ''12345678'' ! 2" by (simp add: numeral_2_eq_2)
  have i: "(2::nat) < 8" by simp
  have c1: "comparePassword ''12345678'' ''12345678''"
    using comparePassword_exact [OF len] by (rule conjunct1)
  have c2: "\<not> comparePassword (''12345678''[2 := CHR ''x'']) ''12345678''
            \<and> \<not> comparePassword ''12345678'' (''12345678''[2 := CHR ''x''])"
    using comparePassword_exact [OF len, THEN conjunct2, rule_format, OF i neq] .
  from len c1 c2 show ?thesis unfolding upd by simp
qed

section \<open>Properties of the countdown display\<close>

lemma uint_minutes_of: "1 \<le> M \<Longrightarrow> M \<le> 32767 \<Longrightarrow> uint (minutes_of M) = M - 1"
proof -
  assume a: "1 \<le> M" "M \<le> 32767"
  have "uint (word_of_int (M - 1) :: u32) = (M - 1) mod 2 ^ 32"
    by (simp only: uint_word_of_int) (simp add: take_bit_eq_mod)
  also have "\<dots> = M - 1" using a by simp
  finally show ?thesis by (simp only: minutes_of_def)
qed

lemma printTime_remaining_uint:
  assumes "uint E div 60000 \<le> uint m"
  shows "uint (fst (printTime_remaining m E)) = uint m - uint E div 60000"
    and "uint (snd (printTime_remaining m E)) = 59 - (uint E div 1000) mod 60"
proof -
  have d: "uint (E div 60000) = uint E div 60000" by (simp add: uint_div)
  have "E div 60000 \<le> m" using assms d by (simp add: word_le_def)
  then show "uint (fst (printTime_remaining m E)) = uint m - uint E div 60000"
    by (simp add: printTime_remaining_def uint_minus_simple_alt d)
  have s: "uint ((E div 1000) mod 60) = (uint E div 1000) mod 60"
    by (simp add: uint_mod uint_div)
  have "(uint E div 1000) mod 60 < 60" by simp
  then have "(E div 1000) mod 60 \<le> 59" using s by (simp add: word_le_def)
  then show "uint (snd (printTime_remaining m E)) = 59 - (uint E div 1000) mod 60"
    by (simp add: printTime_remaining_def uint_minus_simple_alt s)
qed

lemma printTime_total_seconds:
  assumes "1 \<le> M" "M \<le> 32767" "uint E < M * 60000"
  shows "uint (fst (printTime_remaining (minutes_of M) E)) * 60
           + uint (snd (printTime_remaining (minutes_of M) E)) = M * 60 - 1 - uint E div 1000"
    and "uint (snd (printTime_remaining (minutes_of M) E)) < 60"
    and "0 \<le> uint (snd (printTime_remaining (minutes_of M) E))"
proof -
  have le: "uint E div 60000 \<le> uint (minutes_of M)"
    using assms by (simp add: uint_minutes_of) 
  have dd: "uint E div 60000 = (uint E div 1000) div 60"
    by (simp add: div_mult2_eq [symmetric])
  show "uint (fst (printTime_remaining (minutes_of M) E)) * 60
           + uint (snd (printTime_remaining (minutes_of M) E)) = M * 60 - 1 - uint E div 1000"
    using assms(1,2) by (simp add: printTime_remaining_uint [OF le] uint_minutes_of dd algebra_simps
        minus_mod_eq_mult_div [symmetric])
  show "uint (snd (printTime_remaining (minutes_of M) E)) < 60"
    by (simp add: printTime_remaining_uint [OF le])
  show "0 \<le> uint (snd (printTime_remaining (minutes_of M) E))" by simp
qed

lemma last_second_iff:
  fixes x M :: int
  assumes "0 \<le> x" "x < M * 60000"
  shows "(x div 1000 = M * 60 - 1) = (M * 60000 - 1000 \<le> x)"
  using assms by arith

lemma lex_of_total:
  fixes f s f' s' :: int
  assumes "f' * 60 + s' < f * 60 + s" "0 \<le> s" "s < 60" "0 \<le> s'" "s' < 60"
  shows "f' < f \<or> (f' = f \<and> s' < s)"
  using assms by arith

lemma eq_of_total:
  fixes f s f' s' :: int
  assumes "f' * 60 + s' = f * 60 + s" "0 \<le> s" "s < 60" "0 \<le> s'" "s' < 60"
  shows "f' = f \<and> s' = s"
proof -
  have "(f' * 60 + s') div 60 = f'" using assms by simp
  moreover have "(f * 60 + s) div 60 = f" using assms by simp
  ultimately have "f' = f" using assms(1) by simp
  with assms(1) show ?thesis by simp
qed

text \<open>
  C3 (as amended).  Let \<open>M\<close> be the configured minutes, at least 1, and let \<open>printTime\<close>
  be called as every mode loop calls it, with \<open>minutes = M - 1\<close>.  For an elapsed time \<open>E\<close>
  with \<open>0 \<le> E < M * 60000\<close> the remaining minutes are \<open>(M - 1) - E / 60000\<close> and the
  remaining seconds are \<open>59 - (E / 1000 mod 60)\<close>; the (minutes, seconds) display is the
  same for two instants of the same second, strictly smaller at an instant of a later
  second, and it is (0, 0) exactly during the last second, \<open>M * 60000 - 1000 \<le> E\<close>.
\<close>

theorem printTime_countdown:
  assumes M: "1 \<le> M" "M \<le> 32767" and E: "uint E < M * 60000" and E': "uint E' < M * 60000"
  shows "uint (fst (printTime_remaining (minutes_of M) E)) = M - 1 - uint E div 60000
       \<and> uint (snd (printTime_remaining (minutes_of M) E)) = 59 - (uint E div 1000) mod 60
       \<and> (E div 1000 = E' div 1000 \<longrightarrow>
            printTime_remaining (minutes_of M) E' = printTime_remaining (minutes_of M) E)
       \<and> (E div 1000 < E' div 1000 \<longrightarrow>
            display_less (printTime_remaining (minutes_of M) E') (printTime_remaining (minutes_of M) E))
       \<and> (printTime_remaining (minutes_of M) E = (0, 0) \<longleftrightarrow> M * 60000 - 1000 \<le> uint E)"
proof -
  let ?d = "printTime_remaining (minutes_of M) E" and ?d' = "printTime_remaining (minutes_of M) E'"
  note T = printTime_total_seconds [OF M E] and T' = printTime_total_seconds [OF M E']
  have le: "uint E div 60000 \<le> uint (minutes_of M)"
    using M E by (simp add: uint_minutes_of)
  have c1: "uint (fst ?d) = M - 1 - uint E div 60000"
    using M by (simp add: printTime_remaining_uint(1) [OF le] uint_minutes_of)
  have c2: "uint (snd ?d) = 59 - (uint E div 1000) mod 60"
    by (rule printTime_remaining_uint(2) [OF le])
  have c3: "?d' = ?d" if "E div 1000 = E' div 1000"
  proof -
    from that have "uint (E div 1000) = uint (E' div 1000)" by simp
    then have "uint E div 1000 = uint E' div 1000" by (simp add: uint_div)
    with T(1) T'(1) have "uint (fst ?d') * 60 + uint (snd ?d') = uint (fst ?d) * 60 + uint (snd ?d)"
      by simp
    from eq_of_total [OF this T(3) T(2) T'(3) T'(2)]
    have "fst ?d' = fst ?d" "snd ?d' = snd ?d" by (simp_all add: word_uint_eq_iff)
    then show ?thesis by (simp add: prod_eq_iff)
  qed
  have c4: "display_less ?d' ?d" if "E div 1000 < E' div 1000"
  proof -
    from that have "uint (E div 1000) < uint (E' div 1000)" by (simp add: word_less_def)
    then have "uint E div 1000 < uint E' div 1000" by (simp add: uint_div)
    with T(1) T'(1) have "uint (fst ?d') * 60 + uint (snd ?d') < uint (fst ?d) * 60 + uint (snd ?d)"
      by simp
    from lex_of_total [OF this T(3) T(2) T'(3) T'(2)]
    show ?thesis by (simp add: display_less_def word_less_def word_uint_eq_iff)
  qed
  have c5: "?d = (0, 0) \<longleftrightarrow> M * 60000 - 1000 \<le> uint E"
  proof -
    have "?d = (0, 0) \<longleftrightarrow> uint (fst ?d) = 0 \<and> uint (snd ?d) = 0"
      by (simp add: prod_eq_iff word_uint_eq_iff)
    also have "\<dots> \<longleftrightarrow> uint (fst ?d) * 60 + uint (snd ?d) = 0"
      using T(3) by (smt (verit) uint_ge_0)
    also have "\<dots> \<longleftrightarrow> uint E div 1000 = M * 60 - 1" using T(1) by auto
    also have "\<dots> \<longleftrightarrow> M * 60000 - 1000 \<le> uint E"
      by (rule last_second_iff [OF uint_ge_0 E])
    finally show ?thesis .
  qed
  from c1 c2 c3 c4 c5 show ?thesis by blast
qed

theorem printTime_countdown_witness:
  "printTime_remaining (minutes_of 1) 30500 = printTime_remaining (minutes_of 1) 30000
   \<and> display_less (printTime_remaining (minutes_of 1) 31000) (printTime_remaining (minutes_of 1) 30000)
   \<and> printTime_remaining (minutes_of 1) 59000 = (0, 0)
   \<and> printTime_remaining (minutes_of 1) 58999 \<noteq> (0, 0)"
proof -
  have M: "(1::int) \<le> 1" "(1::int) \<le> 32767" by simp_all
  have a: "uint (30000 :: u32) < 1 * 60000" "uint (30500 :: u32) < 1 * 60000"
     "uint (31000 :: u32) < 1 * 60000" "uint (59000 :: u32) < 1 * 60000"
     "uint (58999 :: u32) < 1 * 60000" by simp_all
  have d: "(30000 :: u32) div 1000 = 30500 div 1000" "(30000 :: u32) div 1000 < 31000 div 1000" by simp_all
  from printTime_countdown [OF M a(1) a(2)] d(1)
  have w1: "printTime_remaining (minutes_of 1) 30500 = printTime_remaining (minutes_of 1) 30000" by blast
  from printTime_countdown [OF M a(1) a(3)] d(2)
  have w2: "display_less (printTime_remaining (minutes_of 1) 31000) (printTime_remaining (minutes_of 1) 30000)"
    by blast
  from printTime_countdown [OF M a(4) a(4)]
  have "printTime_remaining (minutes_of 1) 59000 = (0, 0) \<longleftrightarrow> 1 * 60000 - 1000 \<le> uint (59000 :: u32)"
    by blast
  then have w3: "printTime_remaining (minutes_of 1) 59000 = (0, 0)" by simp
  from printTime_countdown [OF M a(5) a(5)]
  have "printTime_remaining (minutes_of 1) 58999 = (0, 0) \<longleftrightarrow> 1 * 60000 - 1000 \<le> uint (58999 :: u32)"
    by blast
  then have w4: "printTime_remaining (minutes_of 1) 58999 \<noteq> (0, 0)" by simp
  from w1 w2 w3 w4 show ?thesis by blast
qed

text \<open>
  The display is not strictly decreasing in \<open>E\<close>: it is the same at \<open>E = 0\<close> and at
  \<open>E = 1\<close>.  And when the parameter \<open>minutes\<close> itself is taken for \<open>M\<close>, the display at
  the last instant before \<open>M * 60000\<close> is (1, 0), not (0, 0).
\<close>

theorem printTime_not_strict_counterexample:
  "(0 :: u32) < 1 \<and> uint (1 :: u32) < 1 * 60000
   \<and> \<not> display_less (printTime_remaining 1 1) (printTime_remaining 1 0)
   \<and> printTime_remaining 1 59999 = (1, 0)"
  by (simp add: printTime_remaining_def display_less_def)

section \<open>Evaluating the sketch on given inputs\<close>

lemmas observation_defs = idle_def hold_d_def hold_c_def press_def

lemmas loop_defs =
  step_def poll_def delay_def minutes_of_def time_expired_def time_expired_or_overflow_def
  progressPercent_def failSplash_def explodeSplash_def disarmedSplash_def gameOver_def gameOver_screens_def
  gameOver_winner_def search_top_def search_def destroy_top_def destroy_def sabotage_top_def
  sabotage_def destroySabotage_top_def destroySabotage_def domination_top_def domination_def
  code_time_left_def is_digit_def setCodeTime_def getNumber_poll_def search_loop_def
  search_arming_def destroy_loop_def destroy_disarming_def sabotage_loop_def sabotage_arming_def
  destroySabotage_loop_def destroySabotage_disarming_def domination_capture_green_def
  domination_capture_red_def domination_neutralize_def domination_loop_def neutralizing_def
  capturing_red_def capturing_green_def


section \<open>Expiry of the game clock\<close>

text \<open>
  C1.  A one-minute Domination session.  Red captures the zone at 6000 ms.  In the first run
  a player starts a neutralise hold at 58000 ms and the clock expires at 59000 ms inside the
  hold loop: \<open>domination\<close> sets \<open>endGame\<close> and returns to the menu, \<open>gameOver\<close> is not called,
  Red's total is still 0 and no winner is named.  In the second run nobody holds a key when
  the clock expires: the main loop calls \<open>gameOver\<close>, which brings Red's total to 53000 ms,
  and the first pass of its result loop names Red the winner.
\<close>

theorem domination_expiry_during_hold:
  "(let s = run (domination (boot\<lparr>GAMEMINUTES := 1\<rparr>))
               [hold_d 1000, hold_d 5000, idle 1000, hold_c 50000, hold_c 1000]
    in pc s = MenuPrincipal \<and> endGame s \<and> team s = 2 \<and> iZoneTime s = 6000 \<and> now s = 59000
       \<and> redTime s = 0 \<and> greenTime s = 0)
   \<and> (let s = run (domination (boot\<lparr>GAMEMINUTES := 1\<rparr>))
               [hold_d 1000, hold_d 5000, idle 1000, idle 50000, idle 1000, idle 10]
    in pc s = GameOver (Some Red) \<and> redTime s = 53000 \<and> greenTime s = 0)"
  by (simp add: boot_def observation_defs loop_defs)

text \<open>
  C2.  A one-minute Search and Destroy session with code entry enabled.  The arm key is
  pressed at 58500 ms and a wrong code is typed; the main loop runs again at 62410 ms.
  Its expiry test, which has no overflow safeguard, is false there, the session goes on in
  \<open>search\<close>, and \<open>printTime\<close> shows the wrapped remaining minutes 4294967295 as
  71582788 hours and 15 minutes.  The test of the hold loop, with the safeguard, is true at
  the same instant.
\<close>

theorem search_expiry_missed:
  "(let s = run (search (boot\<lparr>GAMEMINUTES := 1, passwordEnable := True, password := ''12345678''\<rparr>))
               [press 58500 CHR ''d'', press 300 CHR ''0'', press 300 CHR ''0'', press 300 CHR ''0'',
                press 300 CHR ''0'', press 300 CHR ''0'', press 300 CHR ''0'', press 300 CHR ''0'',
                press 300 CHR ''0'', idle 10]
    in pc s = Search 0 \<and> \<not> endGame s \<and> now s = 62410
       \<and> \<not> time_expired (minutes_of (GAMEMINUTES s)) (now s - 0)
       \<and> printTime_remaining (minutes_of (GAMEMINUTES s)) (now s - 0) = (4294967295, 57)
       \<and> printTime (minutes_of (GAMEMINUTES s)) (now s - 0) (now s) = ''71582788:15:57:589''
       \<and> time_expired_or_overflow (minutes_of (GAMEMINUTES s)) (now s - 0))"
  by (simp add: boot_def observation_defs loop_defs setCodeTime_from.simps comparePassword_def
      comparePassword_from.simps printTime_remaining_def printTime_def digit_char_def print_dec.simps)


section \<open>Code entry and the clocks\<close>

lemma code_entered_safe:
  "\<not> endGame s \<Longrightarrow> \<not> endGame (code_entered c s) \<and> returns_to c (pc (code_entered c s))"
  by (cases c) (simp_all add: loop_defs Let_def)

lemma setCodeTime_from_safe:
  "\<not> endGame s \<Longrightarrow>
   \<not> endGame (setCodeTime_from c st i s)
   \<and> ((\<exists>j. i \<le> j \<and> j < 8 \<and> pc (setCodeTime_from c st i s) = SetCodeTime c st j)
      \<or> pc (setCodeTime_from c st i s) = Undefined
      \<or> returns_to c (pc (setCodeTime_from c st i s)))"
proof (induction c st i s rule: setCodeTime_from.induct)
  case (1 c st i s)
  show ?case
  proof (cases "i < 8")
    case False
    then have "setCodeTime_from c st i s = code_entered c s"
      by (subst setCodeTime_from.simps) simp
    with code_entered_safe [OF "1.prems"] show ?thesis by simp
  next
    case i: True
    show ?thesis
    proof (cases "code_time_left (ACTIVATESECONDS s) st (now s)")
      case None
      with i have "setCodeTime_from c st i s = s\<lparr>pc := Undefined\<rparr>"
        by (subst setCodeTime_from.simps) simp
      with "1.prems" show ?thesis by simp
    next
      case (Some left)
      show ?thesis
      proof (cases "left \<le> 100")
        case False
        with i Some have "setCodeTime_from c st i s = s\<lparr>pc := SetCodeTime c st i\<rparr>"
          by (subst setCodeTime_from.simps) simp
        with "1.prems" i show ?thesis by auto
      next
        case True
        let ?s = "s\<lparr>codeInput := (codeInput s)[i := CHR ''x'']\<rparr>"
        from i Some True have eq: "setCodeTime_from c st i s = setCodeTime_from c st (i + 1) ?s"
          by (subst setCodeTime_from.simps) simp
        have "\<not> endGame ?s" using "1.prems" by simp
        from "1.IH" [OF i Some True this] show ?thesis
          unfolding eq by (auto intro: Suc_leD)
      qed
    qed
  qed
qed

lemma getNumber_poll_no_key:
  "key t = None \<Longrightarrow> getNumber_poll c st i t s = poll t s"
  by (simp add: getNumber_poll_def)

lemma run_code_entry_no_key:
  "pc s = SetCodeTime c st i \<Longrightarrow> \<forall>t\<in>set ts. key t = None \<Longrightarrow>
   pc (run s ts) = SetCodeTime c st i \<and> endGame (run s ts) = endGame s
   \<and> codeInput (run s ts) = codeInput s"
proof (induction ts arbitrary: s)
  case Nil
  then show ?case by simp
next
  case (Cons t ts)
  from Cons.prems have st: "step t s = poll t s"
    by (simp add: step_def getNumber_poll_no_key)
  have "pc (step t s) = SetCodeTime c st i" using Cons.prems(1) by (simp add: st poll_def)
  from Cons.IH [OF this] Cons.prems(2) show ?case by (simp add: st poll_def)
qed

text \<open>
  C10.  While \<open>setCodeTime\<close> waits in \<open>getNumber\<close> for position \<open>i\<close> of the code, a keypad
  poll never leads to an outcome screen of a clock and never sets \<open>endGame\<close>, whatever time
  \<open>dt\<close> has passed: the sketch either still waits for a position \<open>j \<ge> i\<close>, or all 8
  positions are filled and control is back with the caller, in its main loop or where a
  matching code takes it (or an \<open>int\<close> overflowed).  As long as no key is pressed the sketch
  waits for the same position, over any number of polls and any length of time.
\<close>

theorem code_entry_no_expiry:
  assumes "pc s = SetCodeTime c st i" and "i < 8" and "\<not> endGame s"
  shows "\<not> clock_outcome (pc (step t s)) \<and> \<not> endGame (step t s)
       \<and> ((\<exists>j. i \<le> j \<and> j < 8 \<and> pc (step t s) = SetCodeTime c st j)
            \<or> pc (step t s) = Undefined \<or> returns_to c (pc (step t s)))
       \<and> ((\<forall>t\<in>set ts. key t = None) \<longrightarrow>
            pc (run s ts) = SetCodeTime c st i \<and> \<not> endGame (run s ts))"
proof -
  let ?s' = "step t s"
  have ng: "\<not> endGame (poll t s)" using assms(3) by (simp add: poll_def)
  have main: "\<not> endGame ?s'
       \<and> ((\<exists>j. i \<le> j \<and> j < 8 \<and> pc ?s' = SetCodeTime c st j)
            \<or> pc ?s' = Undefined \<or> returns_to c (pc ?s'))"
  proof (cases "key t")
    case None
    then have "?s' = poll t s" using assms(1) by (simp add: step_def getNumber_poll_no_key)
    then show ?thesis using assms by (auto simp: poll_def)
  next
    case (Some k)
    show ?thesis
    proof (cases "is_digit k")
      case True
      let ?s1 = "(poll t s)\<lparr>codeInput := (codeInput (poll t s))[i := k]\<rparr>"
      have eq: "?s' = setCodeTime_from c st (i + 1) ?s1"
        using assms(1) Some True by (simp add: step_def getNumber_poll_def Let_def)
      have "\<not> endGame ?s1" using ng by simp
      from setCodeTime_from_safe [OF this, of c st "i + 1"] show ?thesis
        unfolding eq by (auto intro: Suc_leD)
    next
      case False
      have eq: "?s' = setCodeTime_from c st i (poll t s)"
        using assms(1) Some False by (simp add: step_def getNumber_poll_def Let_def)
      from setCodeTime_from_safe [OF ng, of c st i] show ?thesis
        unfolding eq by blast
    qed
  qed
  have no: "\<not> clock_outcome (pc ?s')"
  proof
    assume co: "clock_outcome (pc ?s')"
    from main have "(\<exists>j. pc ?s' = SetCodeTime c st j) \<or> pc ?s' = Undefined \<or> returns_to c (pc ?s')"
      by blast
    with co show False
      by (cases "pc ?s'"; cases c) auto
  qed
  have quiet: "pc (run s ts) = SetCodeTime c st i \<and> \<not> endGame (run s ts)"
    if "\<forall>t\<in>set ts. key t = None"
    using run_code_entry_no_key [OF assms(1) that] assms(3) by simp
  from main no quiet show ?thesis by blast
qed

theorem code_entry_no_expiry_witness:
  "(let s = run (search (boot\<lparr>GAMEMINUTES := 1, passwordEnable := True\<rparr>)) [press 58500 CHR ''d'']
    in pc s = SetCodeTime (FromSearch 0) 59500 0 \<and> \<not> endGame s
       \<and> \<not> clock_outcome (pc (step (press 600000 CHR ''1'') s))
       \<and> pc (run s [idle 600000, idle 600000]) = SetCodeTime (FromSearch 0) 59500 0
       \<and> \<not> endGame (run s [idle 600000, idle 600000]))"
proof -
  define s where "s = run (search (boot\<lparr>GAMEMINUTES := 1, passwordEnable := True\<rparr>)) [press 58500 CHR ''d'']"
  have p: "pc s = SetCodeTime (FromSearch 0) 59500 0"
    by (simp add: s_def boot_def observation_defs loop_defs setCodeTime_from.simps)
  have e: "\<not> endGame s"
    by (simp add: s_def boot_def observation_defs loop_defs setCodeTime_from.simps)
  have i: "(0::nat) < 8" by simp
  have k: "\<forall>t\<in>set [idle 600000, idle 600000]. key t = None" by (simp add: idle_def)
  from code_entry_no_expiry [OF p i e, of "press 600000 CHR ''1''" "[idle 600000, idle 600000]"] k
  have "\<not> clock_outcome (pc (step (press 600000 CHR ''1'') s))
        \<and> pc (run s [idle 600000, idle 600000]) = SetCodeTime (FromSearch 0) 59500 0
        \<and> \<not> endGame (run s [idle 600000, idle 600000])" by blast
  with p e show ?thesis unfolding s_def Let_def by blast
qed

section \<open>The hold loops\<close>

lemmas hold_loop_defs =
  step_def hold_expired_def hold_progress_def search_arming_def destroy_disarming_def
  sabotage_arming_def destroySabotage_disarming_def neutralizing_def capturing_red_def
  capturing_green_def poll_def delay_def Let_def

lemmas top_defs =
  search_top_def destroy_top_def sabotage_top_def destroySabotage_top_def domination_top_def
  domination_neutralize_def domination_capture_red_def domination_capture_green_def

lemma hold_step_in_progress:
  assumes "hold_start (pc s) = Some a" "hold_input (pc s) t" "\<not> hold_expired s t"
    "hold_progress s t = Some p" "p < 100"
  shows "step t s = poll t s"
  using assms
  by (cases "pc s") (simp_all add: hold_loop_defs not_le [symmetric])


lemma hold_step_completed:
  assumes "hold_start (pc s) = Some a" "\<not> hold_expired s t"
    "hold_progress s t = Some p" "100 \<le> p" "\<not> endGame s"
  shows "signalled (pc s) s (step t s) \<and> pc (step t s) \<noteq> pc s"
  using assms
  by (cases "pc s")
     (simp_all add: hold_loop_defs top_defs destroy_def destroySabotage_def sabotage_def
        disarmedSplash_def)

lemma inputs_of_poll: "inputs_of s' (poll t s) = inputs_of s' s"
  by (simp add: inputs_of_def poll_def)

lemma poll_inputs_of: "poll t s = inputs_of (poll t s) s"
  by (simp add: inputs_of_def poll_def)

lemma hold_continues_run:
  "hold_start (pc s) = Some a \<Longrightarrow> hold_continues s ts \<Longrightarrow> run s ts = inputs_of (run s ts) s"
proof (induction ts arbitrary: s)
  case Nil
  then show ?case by (simp add: inputs_of_def)
next
  case (Cons t ts)
  from Cons.prems(2) obtain p where p: "hold_progress s t = Some p" "p < 100"
    and i: "hold_input (pc s) t" and e: "\<not> hold_expired s t"
    and c: "hold_continues (step t s) ts"
    by (auto split: option.splits)
  have st: "step t s = poll t s" by (rule hold_step_in_progress [OF Cons.prems(1) i e p])
  have "hold_start (pc (poll t s)) = Some a" using Cons.prems(1) by (simp add: poll_def)
  from Cons.IH [OF this] c st
  have "run (poll t s) ts = inputs_of (run (poll t s) ts) (poll t s)" by simp
  then show ?case by (simp add: st inputs_of_poll)
qed


lemma uint_word_of_int_small:
  "0 \<le> k \<Longrightarrow> k < 2 ^ 32 \<Longrightarrow> uint (word_of_int k :: u32) = k"
  by (simp only: uint_word_of_int) (simp add: take_bit_eq_mod)

lemma progressPercent_uint:
  assumes "0 < AS" "AS \<le> 99" "progressPercent AS e = Some p"
  shows "uint p = (uint e div (AS * 10)) mod 65536"
proof -
  have d: "uint (word_of_int (AS * 10) :: u32) = AS * 10"
    using assms(1,2) by (intro uint_word_of_int_small) simp_all
  have nz: "(word_of_int (AS * 10) :: u32) \<noteq> 0"
  proof
    assume "(word_of_int (AS * 10) :: u32) = 0"
    then have "uint (word_of_int (AS * 10) :: u32) = 0" by simp
    with d assms(1) show False by simp
  qed
  from nz assms(3) have p: "p = ucast (e div word_of_int (AS * 10) :: u32)"
    by (simp add: progressPercent_def)
  define w :: u32 where "w = e div word_of_int (AS * 10)"
  have w: "uint w = uint e div (AS * 10)" unfolding w_def by (simp only: uint_div d)
  have "uint p = uint w mod 65536"
    unfolding p w_def [symmetric] by (simp add: unsigned_ucast_eq take_bit_eq_mod)
  then show ?thesis by (simp only: w)
qed

lemma progressPercent_at_duration:
  assumes "0 < AS" "AS \<le> 99"
  shows "progressPercent AS (word_of_int (AS * 1000)) = Some 100"
proof -
  have d: "uint (word_of_int (AS * 10) :: u32) = AS * 10"
    using assms by (intro uint_word_of_int_small) simp_all
  have n: "uint (word_of_int (AS * 1000) :: u32) = AS * 1000"
    using assms by (intro uint_word_of_int_small) simp_all
  have nz: "(word_of_int (AS * 10) :: u32) \<noteq> 0"
  proof
    assume "(word_of_int (AS * 10) :: u32) = 0"
    then have "uint (word_of_int (AS * 10) :: u32) = 0" by simp
    with d assms(1) show False by simp
  qed
  have "uint ((word_of_int (AS * 1000) :: u32) div word_of_int (AS * 10)) = AS * 1000 div (AS * 10)"
    by (simp only: uint_div d n)
  also have "\<dots> = 100" using assms(1) by simp
  finally have "(word_of_int (AS * 1000) :: u32) div word_of_int (AS * 10) = 100"
    by (simp add: word_uint_eq_iff)
  with nz show ?thesis by (simp add: progressPercent_def)
qed

lemma inputs_of_fields [simp]:
  "pc (inputs_of s' s) = pc s" "endGame (inputs_of s' s) = endGame s"
  "ACTIVATESECONDS (inputs_of s' s) = ACTIVATESECONDS s" "now (inputs_of s' s) = now s'"
  "zone_log (inputs_of s' s) = zone_log s"
  by (simp_all add: inputs_of_def)

text \<open>
  C5.  Every hold loop (arming, disarming, capturing, neutralising) computes its progress
  as the elapsed hold time divided by \<open>ACTIVATESECONDS * 10\<close> (kept in 16 bits).  Let the
  hold duration be between 1 and 99 seconds, let the hold be polled any number of times
  before it is complete, and let the next poll come exactly \<open>ACTIVATESECONDS * 1000\<close> ms after
  the start of the hold, with the clock of the enclosing loop not expired.  Then that poll
  finds 100 percent; up to it nothing but the clock and the key flags has changed, so no
  earlier poll has signalled completion; that poll performs the completion of the hold; and
  it leaves the hold loop, so the hold is not polled again.
\<close>

theorem hold_completes_once:
  assumes h: "hold_start (pc s) = Some a" and g: "\<not> endGame s"
    and AS: "0 < ACTIVATESECONDS s" "ACTIVATESECONDS s \<le> 99"
    and before: "hold_continues s ts"
    and exact: "now (run s ts) + dt t - a = word_of_int (ACTIVATESECONDS s * 1000)"
    and clock: "\<not> hold_expired (run s ts) t"
  shows "(\<forall>t' p'. hold_progress s t' = Some p' \<longrightarrow>
            uint p' = (uint (now s + dt t' - a) div (ACTIVATESECONDS s * 10)) mod 65536)
       \<and> hold_progress (run s ts) t = Some 100
       \<and> run s ts = inputs_of (run s ts) s
       \<and> signalled (pc s) (run s ts) (step t (run s ts))
       \<and> pc (step t (run s ts)) \<noteq> pc s"
proof -
  let ?s' = "run s ts"
  have same: "?s' = inputs_of ?s' s" by (rule hold_continues_run [OF h before])
  have pc': "pc ?s' = pc s" and g': "\<not> endGame ?s'" and AS': "ACTIVATESECONDS ?s' = ACTIVATESECONDS s"
    using g by (subst same, simp)+
  have h': "hold_start (pc ?s') = Some a" using h pc' by simp
  have formula: "uint p' = (uint (now s + dt t' - a) div (ACTIVATESECONDS s * 10)) mod 65536"
    if "hold_progress s t' = Some p'" for t' p'
    using that h progressPercent_uint [OF AS] by (simp add: hold_progress_def)
  have full: "hold_progress ?s' t = Some 100"
    using h' exact progressPercent_at_duration [OF AS] by (simp add: hold_progress_def AS')
  have "(100 :: u16) \<le> 100" by simp
  from hold_step_completed [OF h' clock full this g']
  have compl: "signalled (pc s) ?s' (step t ?s')" "pc (step t ?s') \<noteq> pc s"
    by (simp_all add: pc')
  from formula full same compl show ?thesis by blast
qed

theorem hold_completes_once_witness:
  "(let s = run (domination (boot\<lparr>GAMEMINUTES := 10\<rparr>)) [hold_d 1000];
        ts = [hold_d 1000, hold_d 2500, hold_d 1499];
        t = hold_d 1
    in hold_start (pc s) = Some 1000 \<and> \<not> endGame s \<and> hold_continues s ts
       \<and> now (run s ts) + dt t - 1000 = word_of_int (ACTIVATESECONDS s * 1000)
       \<and> \<not> hold_expired (run s ts) t
       \<and> hold_progress (run s ts) t = Some 100
       \<and> run s ts = inputs_of (run s ts) s
       \<and> signalled (pc s) (run s ts) (step t (run s ts))
       \<and> pc (step t (run s ts)) \<noteq> pc s)"
proof -
  define s where "s = run (domination (boot\<lparr>GAMEMINUTES := 10\<rparr>)) [hold_d 1000]"
  define ts where "ts = [hold_d 1000, hold_d 2500, hold_d 1499]"
  define t where "t = hold_d 1"
  have s: "s = boot\<lparr>GAMEMINUTES := 10, now := 1000, defusing := True, pc := CapturingRed 0 1000\<rparr>"
    by (simp add: s_def boot_def observation_defs loop_defs)
  have h: "hold_start (pc s) = Some 1000" by (simp add: s)
  have g: "\<not> endGame s" by (simp add: s boot_def)
  have AS: "0 < ACTIVATESECONDS s" "ACTIVATESECONDS s \<le> 99" by (simp_all add: s boot_def)
  have before: "hold_continues s ts"
    by (simp add: s ts_def boot_def observation_defs loop_defs hold_expired_def hold_progress_def)
  have r: "run s ts = s\<lparr>now := 5999\<rparr>"
    by (simp add: s ts_def boot_def observation_defs loop_defs)
  have exact: "now (run s ts) + dt t - 1000 = word_of_int (ACTIVATESECONDS s * 1000)"
    unfolding r by (simp add: s t_def boot_def observation_defs)
  have clock: "\<not> hold_expired (run s ts) t"
    unfolding r by (simp add: s t_def boot_def observation_defs loop_defs hold_expired_def)
  from hold_completes_once [OF h g AS before exact clock] h g before exact clock
  show ?thesis unfolding s_def [symmetric] ts_def [symmetric] t_def [symmetric] Let_def by blast
qed

















section \<open>Control time in Domination\<close>

lemma closed_interval_open:
  "open_interval es = Some (T, a) \<Longrightarrow> closed_interval T' r es = (if T = T' then r - a else 0)"
  by (cases es rule: open_interval.cases) auto

lemma closed_interval_none:
  "open_interval es = None \<Longrightarrow> closed_interval T' r es = 0"
  by (cases es rule: open_interval.cases) auto

lemma zone_inv_pc [simp]: "zone_inv (s\<lparr>pc := p\<rparr>) = zone_inv s"
  by (simp add: zone_inv_def holder_def)

lemma zone_inv_poll [simp]: "zone_inv (poll t s) = zone_inv s"
  by (simp add: zone_inv_def holder_def poll_def)

lemma zone_inv_endGame [simp]: "zone_inv (s\<lparr>endGame := e\<rparr>) = zone_inv s"
  by (simp add: zone_inv_def holder_def)

lemma team_poll [simp]: "team (poll t s) = team s"
  by (simp add: poll_def)

lemma gameOver_inv: "zone_inv s \<Longrightarrow> domination_inv (gameOver s)"
  by (auto simp: zone_inv_def domination_inv_def gameOver_def Let_def holder_def delay_def
      closed_interval_open closed_interval_none)

lemma gameOver_screens_inv:
  assumes "domination_inv s" "is_GameOver (pc s)"
  shows "domination_inv (gameOver_screens w t s)"
proof -
  from assms have "greenTime s = control_total Green (zone_log s)"
    "redTime s = control_total Red (zone_log s)" "alternating (zone_log s)"
    by (cases "pc s"; simp add: domination_inv_def)+
  then show ?thesis
    by (simp add: domination_inv_def gameOver_screens_def poll_def delay_def Let_def)
qed

lemma domination_top_inv: "zone_inv s \<Longrightarrow> domination_inv (domination_top i s)"
  by (simp add: domination_top_def gameOver_inv) (simp add: domination_inv_def)

lemma domination_capture_green_inv: "zone_inv s \<Longrightarrow> domination_inv (domination_capture_green i s)"
  by (simp add: domination_capture_green_def domination_top_inv) (simp add: domination_inv_def)

lemma domination_capture_red_inv: "zone_inv s \<Longrightarrow> domination_inv (domination_capture_red i s)"
  by (simp add: domination_capture_red_def domination_capture_green_inv) (simp add: domination_inv_def)

lemma domination_neutralize_inv: "zone_inv s \<Longrightarrow> domination_inv (domination_neutralize i s)"
  by (simp add: domination_neutralize_def domination_capture_red_inv) (simp add: domination_inv_def)

lemma domination_loop_inv: "zone_inv s \<Longrightarrow> domination_inv (domination_loop i t s)"
  by (simp add: domination_loop_def Let_def gameOver_inv domination_neutralize_inv)

lemma zone_inv_acquired:
  assumes "zone_inv s" "team s = 0"
  shows "zone_inv (delay d (s\<lparr>team := 2, iZoneTime := n, zone_log := Acquired Red n # zone_log s\<rparr>))"
    and "zone_inv (delay d (s\<lparr>team := 1, iZoneTime := n, zone_log := Acquired Green n # zone_log s\<rparr>))"
  using assms by (simp_all add: zone_inv_def holder_def delay_def)

lemma zone_inv_released:
  assumes "zone_inv s" "0 < team s"
  shows "zone_inv (let s2 = delay 1000 s;
                    s3 = (if team s2 = 1 then s2\<lparr>greenTime := greenTime s2 + (now s2 - iZoneTime s2)\<rparr> else s2);
                    s4 = (if team s3 = 2 then s3\<lparr>redTime := redTime s3 + (now s3 - iZoneTime s3)\<rparr> else s3)
                in s4\<lparr>iZoneTime := 0, team := 0, zone_log := Released (now s4) # zone_log s4\<rparr>)"
  using assms
  by (auto simp: zone_inv_def holder_def delay_def Let_def closed_interval_open closed_interval_none)

lemma frozen_inv:
  "zone_inv s \<Longrightarrow> in_domination p (team s) \<Longrightarrow> domination_inv (s\<lparr>pc := p\<rparr>)"
  by (simp add: domination_inv_def)

lemma frozen_endGame_inv:
  "zone_inv s \<Longrightarrow> domination_inv (s\<lparr>endGame := True, pc := MenuPrincipal\<rparr>)"
  by (simp add: domination_inv_def)

lemma neutralizing_inv:
  assumes "zone_inv s" "0 < team s" "pc s = Neutralizing i a"
  shows "domination_inv (neutralizing i a t s)"
proof -
  let ?s1 = "poll t s"
  let ?released = "let s2 = delay 1000 ?s1;
                    s3 = (if team s2 = 1 then s2\<lparr>greenTime := greenTime s2 + (now s2 - iZoneTime s2)\<rparr> else s2);
                    s4 = (if team s3 = 2 then s3\<lparr>redTime := redTime s3 + (now s3 - iZoneTime s3)\<rparr> else s3)
                in s4\<lparr>iZoneTime := 0, team := 0, zone_log := Released (now s4) # zone_log s4\<rparr>"
  have z: "zone_inv ?s1" and tm: "0 < team ?s1" and p: "pc ?s1 = Neutralizing i a"
    using assms by (simp_all add: poll_def zone_inv_def holder_def)
  have stay: "domination_inv ?s1" using z tm p by (simp add: domination_inv_def)
  have rel: "domination_inv (domination_neutralize i ?released)"
    by (rule domination_neutralize_inv [OF zone_inv_released [OF z tm]])
  show ?thesis
  proof (cases "time_expired_or_overflow (minutes_of (GAMEMINUTES ?s1)) (now ?s1 - i)")
    case True
    then have "neutralizing i a t s = ?s1\<lparr>endGame := True, pc := MenuPrincipal\<rparr>"
      by (simp add: neutralizing_def Let_def)
    with frozen_endGame_inv [OF z] show ?thesis by simp
  next
    case ne: False
    show ?thesis
    proof (cases "progressPercent (ACTIVATESECONDS ?s1) (now ?s1 - a)")
      case None
      with ne have "neutralizing i a t s = ?s1\<lparr>pc := Undefined\<rparr>"
        by (simp add: neutralizing_def Let_def)
      with frozen_inv [OF z, of Undefined] show ?thesis by simp
    next
      case (Some pct)
      show ?thesis
      proof (cases "100 \<le> pct")
        case True
        with ne Some have "neutralizing i a t s = domination_neutralize i ?released"
          by (simp add: neutralizing_def Let_def)
        with rel show ?thesis by simp
      next
        case False
        with ne Some have "neutralizing i a t s = ?s1 \<or> neutralizing i a t s = domination_neutralize i ?s1"
          by (simp add: neutralizing_def Let_def)
        with stay domination_neutralize_inv [OF z, of i] show ?thesis by auto
      qed
    qed
  qed
qed

lemma capturing_red_inv:
  assumes "zone_inv s" "team s = 0" "pc s = CapturingRed i a"
  shows "domination_inv (capturing_red i a t s)"
proof -
  let ?s1 = "poll t s"
  let ?acquired = "delay 1000 (?s1\<lparr>team := 2, iZoneTime := now ?s1,
                                    zone_log := Acquired Red (now ?s1) # zone_log ?s1\<rparr>)"
  have z: "zone_inv ?s1" and tm: "team ?s1 = 0" and p: "pc ?s1 = CapturingRed i a"
    using assms by (simp_all add: poll_def zone_inv_def holder_def)
  have stay: "domination_inv ?s1" using z tm p by (simp add: domination_inv_def)
  have acq: "domination_inv (domination_capture_red i ?acquired)"
    by (rule domination_capture_red_inv [OF zone_inv_acquired(1) [OF z tm]])
  show ?thesis
  proof (cases "time_expired_or_overflow (minutes_of (GAMEMINUTES ?s1)) (now ?s1 - i)")
    case True
    then have "capturing_red i a t s = ?s1\<lparr>endGame := True, pc := MenuPrincipal\<rparr>"
      by (simp add: capturing_red_def Let_def)
    with frozen_endGame_inv [OF z] show ?thesis by simp
  next
    case ne: False
    show ?thesis
    proof (cases "progressPercent (ACTIVATESECONDS ?s1) (now ?s1 - a)")
      case None
      with ne have "capturing_red i a t s = ?s1\<lparr>pc := Undefined\<rparr>"
        by (simp add: capturing_red_def Let_def)
      with frozen_inv [OF z, of Undefined] show ?thesis by simp
    next
      case (Some pct)
      show ?thesis
      proof (cases "100 \<le> pct")
        case True
        with ne Some have "capturing_red i a t s = domination_capture_red i ?acquired"
          by (simp add: capturing_red_def Let_def)
        with acq show ?thesis by simp
      next
        case False
        with ne Some have "capturing_red i a t s = ?s1 \<or> capturing_red i a t s = domination_capture_red i ?s1"
          by (simp add: capturing_red_def Let_def)
        with stay domination_capture_red_inv [OF z, of i] show ?thesis by auto
      qed
    qed
  qed
qed

lemma capturing_green_inv:
  assumes "zone_inv s" "team s = 0" "pc s = CapturingGreen i a"
  shows "domination_inv (capturing_green i a t s)"
proof -
  let ?s1 = "poll t s"
  let ?acquired = "delay 1000 (?s1\<lparr>team := 1, iZoneTime := now ?s1,
                                    zone_log := Acquired Green (now ?s1) # zone_log ?s1\<rparr>)"
  have z: "zone_inv ?s1" and tm: "team ?s1 = 0" and p: "pc ?s1 = CapturingGreen i a"
    using assms by (simp_all add: poll_def zone_inv_def holder_def)
  have stay: "domination_inv ?s1" using z tm p by (simp add: domination_inv_def)
  have acq: "domination_inv (domination_capture_green i ?acquired)"
    by (rule domination_capture_green_inv [OF zone_inv_acquired(2) [OF z tm]])
  show ?thesis
  proof (cases "time_expired_or_overflow (minutes_of (GAMEMINUTES ?s1)) (now ?s1 - i)")
    case True
    then have "capturing_green i a t s = ?s1\<lparr>endGame := True, pc := MenuPrincipal\<rparr>"
      by (simp add: capturing_green_def Let_def)
    with frozen_endGame_inv [OF z] show ?thesis by simp
  next
    case ne: False
    show ?thesis
    proof (cases "progressPercent (ACTIVATESECONDS ?s1) (now ?s1 - a)")
      case None
      with ne have "capturing_green i a t s = ?s1\<lparr>pc := Undefined\<rparr>"
        by (simp add: capturing_green_def Let_def)
      with frozen_inv [OF z, of Undefined] show ?thesis by simp
    next
      case (Some pct)
      show ?thesis
      proof (cases "100 \<le> pct")
        case True
        with ne Some have "capturing_green i a t s = domination_capture_green i ?acquired"
          by (simp add: capturing_green_def Let_def)
        with acq show ?thesis by simp
      next
        case False
        with ne Some have "capturing_green i a t s = ?s1 \<or> capturing_green i a t s = domination_capture_green i ?s1"
          by (simp add: capturing_green_def Let_def)
        with stay domination_capture_green_inv [OF z, of i] show ?thesis by auto
      qed
    qed
  qed
qed

lemma step_domination_inv: "domination_inv s \<Longrightarrow> domination_inv (step t s)"
proof -
  assume inv: "domination_inv s"
  show ?thesis
  proof (cases "pc s")
    case (Domination i)
    with inv have "zone_inv s" by (simp add: domination_inv_def)
    from domination_loop_inv [OF this] Domination show ?thesis by (simp add: step_def)
  next
    case (Neutralizing i a)
    with inv have "zone_inv s" "0 < team s" by (simp_all add: domination_inv_def)
    from neutralizing_inv [OF this Neutralizing] Neutralizing show ?thesis by (simp add: step_def)
  next
    case (CapturingRed i a)
    with inv have "zone_inv s" "team s = 0" by (simp_all add: domination_inv_def)
    from capturing_red_inv [OF this CapturingRed] CapturingRed show ?thesis by (simp add: step_def)
  next
    case (CapturingGreen i a)
    with inv have "zone_inv s" "team s = 0" by (simp_all add: domination_inv_def)
    from capturing_green_inv [OF this CapturingGreen] CapturingGreen show ?thesis by (simp add: step_def)
  next
    case (GameOver w)
    with inv have "is_GameOver (pc s)" by simp
    from gameOver_screens_inv [OF inv this] GameOver show ?thesis by (simp add: step_def)
  qed (use inv in \<open>simp_all add: step_def domination_inv_def\<close>)
qed

lemma run_domination_inv: "domination_inv s \<Longrightarrow> domination_inv (run s ts)"
  by (induction ts arbitrary: s) (simp_all add: step_domination_inv)

lemma domination_start_inv: "domination_inv (domination s)"
proof -
  have "zone_inv (s\<lparr>team := 0, iZoneTime := 0, redTime := 0, greenTime := 0, zone_log := []\<rparr>)"
    by (simp add: zone_inv_def holder_def)
  from domination_top_inv [OF this] show ?thesis by (simp add: domination_def)
qed

text \<open>
  On every run of a Domination session the totals are the sums over the closed intervals of
  the zone history, acquisitions and releases alternate in it, and, until \<open>gameOver\<close> runs,
  the interval that is open in it is the one that \<open>team\<close> and \<open>iZoneTime\<close> describe.
\<close>

lemma domination_history: "domination_inv (run (domination s0) ts)"
  by (rule run_domination_inv [OF domination_start_inv])

text \<open>
  C4.  A one-minute Domination session.  Red captures the zone at 6000 ms and holds it to the
  end.  A neutralise hold is in progress when the clock expires at 59000 ms, and the session
  ends there, in the hold loop: the sketch is back in the menu and stays there.  The interval
  in which Red held the zone, from 6000 ms to the end of the session at 59000 ms, amounts to
  53000 ms, and Red's total is 0: it was not brought up to date when the session ended.
\<close>

theorem domination_total_not_finalized:
  "(let s = run (domination (boot\<lparr>GAMEMINUTES := 1\<rparr>))
               [hold_d 1000, hold_d 5000, idle 1000, hold_c 50000, hold_c 1000]
    in pc s = MenuPrincipal \<and> step (idle 1000) s = s \<and> now s = 59000
       \<and> holder s = Some (Red, 6000) \<and> zone_log s = [Acquired Red 6000]
       \<and> control_total Red (SessionEnded (now s) # zone_log s) = 53000
       \<and> redTime s = 0)"
  by (simp add: boot_def observation_defs loop_defs holder_def)

section \<open>Properties of the winner rule\<close>







end
